theory Spec2Isabelle
  imports Complex_Main "HOL-Library.Sublist"
begin

section \<open>Numbers, errors and arrays\<close>

text \<open>
  The viewer of \<^verbatim>\<open>obstacle_env/graphics.py\<close> computes with Python floats and numpy
  arrays. A float is modelled as a real number: the arithmetic below is the exact
  arithmetic that the float operations approximate (rounding error, infinities and NaN
  are outside the model). The section on double arithmetic repeats the coordinate
  functions with the rounding of every operation written out, for the one property that
  depends on it. Python integers are \<open>int\<close>; pixel sizes of a surface are \<open>nat\<close>.
\<close>

datatype error = IndexError | AttributeError | ZeroDivisionError | ValueError | FileExistsError

text \<open>
  \<^verbatim>\<open>int(x)\<close> on a float drops the fractional part: it truncates toward zero.
\<close>

definition py_int :: "real \<Rightarrow> int" where
  "py_int x = (if x < 0 then \<lceil>x\<rceil> else \<lfloor>x\<rfloor>)"

text \<open>
  A numpy array of the two shapes the viewer meets: a flat array of shape \<open>(n,)\<close> and a
  matrix of shape \<open>(m, n)\<close>, given by its rows (all of the length \<open>n\<close>).
\<close>

datatype ndarray = Arr1 "real list" | Arr2 "real list list"

text \<open>
  \<^verbatim>\<open>a[i, j]\<close>: two indices on a flat array raise IndexError (too many indices), and so
  does an index out of bounds.
\<close>

fun getitem2 :: "ndarray \<Rightarrow> nat \<Rightarrow> nat \<Rightarrow> error + real" where
  "getitem2 (Arr1 xs) i j = Inl IndexError"
| "getitem2 (Arr2 rows) i j =
     (if i < length rows \<and> j < length (rows ! i) then Inr (rows ! i ! j) else Inl IndexError)"

text \<open>
  \<^verbatim>\<open>position - np.array([[a], [b]])\<close>: subtraction of a column of shape \<open>(2, 1)\<close>, with
  numpy's broadcasting. A flat array of shape \<open>(n,)\<close> is read as one row and gives shape
  \<open>(2, n)\<close>; a matrix of one row is repeated, a matrix of two rows is taken row by row, and
  any other number of rows cannot be broadcast against two (ValueError).
\<close>

fun sub_column :: "ndarray \<Rightarrow> real \<Rightarrow> real \<Rightarrow> error + ndarray" where
  "sub_column (Arr1 xs) a b = Inr (Arr2 [map (\<lambda>x. x - a) xs, map (\<lambda>x. x - b) xs])"
| "sub_column (Arr2 [r]) a b = Inr (Arr2 [map (\<lambda>x. x - a) r, map (\<lambda>x. x - b) r])"
| "sub_column (Arr2 [r0, r1]) a b = Inr (Arr2 [map (\<lambda>x. x - a) r0, map (\<lambda>x. x - b) r1])"
| "sub_column (Arr2 rows) a b = Inl ValueError"

section \<open>SimulationSurface: the local coordinate system\<close>

text \<open>
  The fields of \<^verbatim>\<open>SimulationSurface\<close> that the code reads and writes. \<open>width\<close> and
  \<open>height\<close> are what \<^verbatim>\<open>get_width()\<close> and \<^verbatim>\<open>get_height()\<close> return; \<open>drawn\<close> is the
  sequence of draw calls the surface has received.
\<close>

datatype draw_call =
    DrawRect "int \<times> int \<times> int" "int list" int
  | DrawCircle "int \<times> int \<times> int" "int \<times> int" int int

record simulation_surface =
  width :: nat
  height :: nat
  origin :: ndarray
  scaling :: real
  centering_position :: real
  drawn :: "draw_call list"

definition SCALING_FACTOR :: real where
  "SCALING_FACTOR = 13 / 10"

definition MOVING_FACTOR :: real where
  "MOVING_FACTOR = 1 / 10"

definition WHITE :: "int \<times> int \<times> int" where
  "WHITE = (255, 255, 255)"

definition GREY :: "int \<times> int \<times> int" where
  "GREY = (100, 100, 100)"

text \<open>\<^verbatim>\<open>SimulationSurface.__init__\<close> for a surface of the given size.\<close>

definition SimulationSurface_init :: "nat \<Rightarrow> nat \<Rightarrow> simulation_surface" where
  "SimulationSurface_init w h =
     \<lparr>width = w, height = h, origin = Arr1 [0, 0], scaling = 15,
      centering_position = 1 / 2, drawn = []\<rparr>"

definition pix :: "simulation_surface \<Rightarrow> real \<Rightarrow> int" where
  "pix s len = py_int (len * scaling s)"

text \<open>
  \<^verbatim>\<open>pos2pix\<close> reads \<^verbatim>\<open>origin[0, 0]\<close>, then \<^verbatim>\<open>origin[1, 0]\<close>; either read can raise.
\<close>

definition pos2pix :: "simulation_surface \<Rightarrow> real \<Rightarrow> real \<Rightarrow> error + (int \<times> int)" where
  "pos2pix s x y =
     (case getitem2 (origin s) 0 0 of
        Inl e \<Rightarrow> Inl e
      | Inr ox \<Rightarrow>
          (case getitem2 (origin s) 1 0 of
             Inl e \<Rightarrow> Inl e
           | Inr oy \<Rightarrow> Inr (pix s (x - ox), pix s (y - oy))))"

text \<open>
  \<^verbatim>\<open>move_display_window_to\<close>: the offset column is built first (a float division by a
  zero scaling raises ZeroDivisionError), then subtracted from the position.
\<close>

definition move_display_window_to ::
  "simulation_surface \<Rightarrow> ndarray \<Rightarrow> error + simulation_surface" where
  "move_display_window_to s position =
     (if scaling s = 0 then Inl ZeroDivisionError
      else
        (case sub_column position
                (centering_position s * real (width s) / scaling s)
                (real (height s) / (2 * scaling s)) of
           Inl e \<Rightarrow> Inl e
         | Inr v \<Rightarrow> Inr (s\<lparr>origin := v\<rparr>)))"

text \<open>
  Pygame events: a key press carries its key code; the window-close event and every other
  event carry nothing the viewer reads. The key codes are pygame's (the ASCII codes of the
  letters).
\<close>

datatype event = KEYDOWN int | QUIT | OtherEvent

definition K_k :: int where "K_k = 107"
definition K_l :: int where "K_l = 108"
definition K_m :: int where "K_m = 109"
definition K_o :: int where "K_o = 111"

text \<open>
  \<^verbatim>\<open>handle_event\<close>: four independent \<^verbatim>\<open>if\<close> statements under the test for a key press,
  run one after the other on the state as updated so far.
\<close>

fun handle_event :: "simulation_surface \<Rightarrow> event \<Rightarrow> simulation_surface" where
  "handle_event s (KEYDOWN key) =
     (let s1 = (if key = K_l then s\<lparr>scaling := scaling s * (1 / SCALING_FACTOR)\<rparr> else s);
          s2 = (if key = K_o then s1\<lparr>scaling := scaling s1 * SCALING_FACTOR\<rparr> else s1);
          s3 = (if key = K_m
                then s2\<lparr>centering_position := centering_position s2 - MOVING_FACTOR\<rparr> else s2);
          s4 = (if key = K_k
                then s3\<lparr>centering_position := centering_position s3 + MOVING_FACTOR\<rparr> else s3)
      in s4)"
| "handle_event s QUIT = s"
| "handle_event s OtherEvent = s"

section \<open>Formatting numbers\<close>

text \<open>
  \<^verbatim>\<open>str(n)\<close> for a natural number: its decimal digits, most significant first.
\<close>

definition digit_char :: "nat \<Rightarrow> char" where
  "digit_char d = ''0123456789'' ! d"

fun str_nat :: "nat \<Rightarrow> string" where
  "str_nat n = (if n < 10 then [digit_char n] else str_nat (n div 10) @ [digit_char (n mod 10)])"

declare str_nat.simps [simp del]

definition str_int :: "int \<Rightarrow> string" where
  "str_int i = (if i < 0 then CHR ''-'' # str_nat (nat (- i)) else str_nat (nat i))"

text \<open>
  The format \<^verbatim>\<open>{:04d}\<close>: the decimal digits, padded with zeros on the left to four
  characters; a sign counts as one of the four and stands before the zeros. A number of
  more than four characters is written in full.
\<close>

definition zfill :: "nat \<Rightarrow> string \<Rightarrow> string" where
  "zfill w ds = replicate (w - length ds) CHR ''0'' @ ds"

definition format_04d :: "int \<Rightarrow> string" where
  "format_04d i =
     (if i < 0 then CHR ''-'' # zfill 3 (str_nat (nat (- i))) else zfill 4 (str_nat (nat i)))"

text \<open>
  \<^verbatim>\<open>np.round\<close> rounds to the nearest integer, a tie to the even neighbour.
\<close>

definition np_round :: "real \<Rightarrow> int" where
  "np_round x =
     (if x - of_int \<lfloor>x\<rfloor> < 1 / 2 then \<lfloor>x\<rfloor>
      else if 1 / 2 < x - of_int \<lfloor>x\<rfloor> then \<lfloor>x\<rfloor> + 1
      else if even \<lfloor>x\<rfloor> then \<lfloor>x\<rfloor> else \<lfloor>x\<rfloor> + 1)"

section \<open>Double arithmetic\<close>

text \<open>
  A Python float is an IEEE 754 double: zero, or a significand of 53 bits times a power
  of two, \<open>m * 2^(e - 52)\<close> with \<open>2^52 \<le> m < 2^53\<close> and \<open>e \<ge> -1022\<close>; below \<open>2^(-1022)\<close>
  the spacing stays \<open>2^(-1074)\<close>. Every operation returns the exact result rounded to the
  nearest double, a tie to the even significand. Results beyond the largest double
  (infinities) and NaN are outside the model.
\<close>

fun log2_floor :: "nat \<Rightarrow> nat" where
  "log2_floor n = (if n < 2 then 0 else Suc (log2_floor (n div 2)))"

declare log2_floor.simps [simp del]

definition pow2 :: "int \<Rightarrow> real" where
  "pow2 e = (if 0 \<le> e then 2 ^ nat e else 1 / 2 ^ nat (- e))"

text \<open>The exponent of a positive number \<open>x\<close>: the \<open>e\<close> with \<open>2^e \<le> x < 2^(e + 1)\<close>.\<close>

definition exponent :: "real \<Rightarrow> int" where
  "exponent x =
     (if 1 \<le> x then int (log2_floor (nat \<lfloor>x\<rfloor>))
      else (let k = int (log2_floor (nat \<lfloor>1 / x\<rfloor>))
            in if x = pow2 (- k) then - k else - k - 1))"

definition double :: "real \<Rightarrow> real" where
  "double x =
     (if x = 0 then 0
      else (let u = pow2 (max (exponent \<bar>x\<bar>) (- 1022) - 52)
            in sgn x * real_of_int (np_round (\<bar>x\<bar> / u)) * u))"






section \<open>The environment and the file system\<close>

text \<open>
  The environment is supplied by the caller. An obstacle is a dictionary with the keys
  \<^verbatim>\<open>'position'\<close> and \<^verbatim>\<open>'radius'\<close>; the dynamics is an object with a \<^verbatim>\<open>position\<close>, or
  \<^verbatim>\<open>None\<close> when there is no agent.
\<close>

record entity =
  position :: ndarray

record obstacle = entity +
  radius :: real

record scene =
  obstacles :: "obstacle list"

record env =
  scene :: scene
  dynamics :: "entity option"
  SIMULATION_FREQUENCY :: int

text \<open>
  The file system is the set of the paths of its files; a directory exists when it is in
  the set or a path below it is.
\<close>

definition below :: "string \<Rightarrow> string \<Rightarrow> bool" where
  "below d p = prefix (d @ ''/'') p"

definition path_exists :: "string set \<Rightarrow> string \<Rightarrow> bool" where
  "path_exists fs p = (p \<in> fs \<or> (\<exists>q\<in>fs. below p q))"

definition mkdir :: "string \<Rightarrow> string set \<Rightarrow> error + string set" where
  "mkdir d fs = (if path_exists fs d then Inl FileExistsError else Inr (insert d fs))"

text \<open>\<^verbatim>\<open>shutil.rmtree(d, ignore_errors=True)\<close> removes \<open>d\<close> and everything below it.\<close>

definition rmtree :: "string \<Rightarrow> string set \<Rightarrow> string set" where
  "rmtree d fs = {p \<in> fs. p \<noteq> d \<and> \<not> below d p}"

section \<open>Scene2dGraphics: the draw pass\<close>

definition draw_rect ::
  "simulation_surface \<Rightarrow> int \<times> int \<times> int \<Rightarrow> int list \<Rightarrow> int \<Rightarrow> simulation_surface" where
  "draw_rect s color r w = s\<lparr>drawn := drawn s @ [DrawRect color r w]\<rparr>"

definition draw_circle ::
  "simulation_surface \<Rightarrow> int \<times> int \<times> int \<Rightarrow> int \<times> int \<Rightarrow> int \<Rightarrow> int \<Rightarrow> simulation_surface" where
  "draw_circle s color p r w = s\<lparr>drawn := drawn s @ [DrawCircle color p r w]\<rparr>"

text \<open>
  The loop of \<^verbatim>\<open>Scene2dGraphics.display\<close> over the obstacles: both coordinates are read
  from the obstacle's position, converted, and a filled circle is drawn.
\<close>

fun draw_obstacles :: "obstacle list \<Rightarrow> simulation_surface \<Rightarrow> error + simulation_surface" where
  "draw_obstacles [] s = Inr s"
| "draw_obstacles (ob # obs) s =
     (case getitem2 (position ob) 0 0 of
        Inl e \<Rightarrow> Inl e
      | Inr x \<Rightarrow>
          (case getitem2 (position ob) 1 0 of
             Inl e \<Rightarrow> Inl e
           | Inr y \<Rightarrow>
               (case pos2pix s x y of
                  Inl e \<Rightarrow> Inl e
                | Inr p \<Rightarrow> draw_obstacles obs (draw_circle s GREY p (pix s (radius ob)) 0))))"

definition Scene2dGraphics_display :: "scene \<Rightarrow> simulation_surface \<Rightarrow> error + simulation_surface" where
  "Scene2dGraphics_display sc s =
     draw_obstacles (obstacles sc)
       (draw_rect s WHITE [0, 0, int (width s), int (height s)] 0)"

text \<open>
  \<^verbatim>\<open>display_dynamics\<close> reads \<^verbatim>\<open>dynamics.position\<close> at once: on \<^verbatim>\<open>None\<close> the attribute
  access raises AttributeError.
\<close>

fun display_dynamics :: "entity option \<Rightarrow> simulation_surface \<Rightarrow> error + simulation_surface" where
  "display_dynamics None s = Inl AttributeError"
| "display_dynamics (Some d) s =
     (case getitem2 (position d) 0 0 of
        Inl e \<Rightarrow> Inl e
      | Inr x \<Rightarrow>
          (case getitem2 (position d) 1 0 of
             Inl e \<Rightarrow> Inl e
           | Inr y \<Rightarrow>
               (case pos2pix s x y of
                  Inl e \<Rightarrow> Inl e
                | Inr p \<Rightarrow> Inr (draw_circle s GREY p (pix s (1 / 5)) 1))))"

section \<open>EnvViewer: the session\<close>

text \<open>
  The viewer's fields, and with them the part of the operating system it acts on: \<open>files\<close>
  is the file system and \<open>commands\<close> the shell commands run through \<^verbatim>\<open>os.system\<close>.
  \<open>screen\<close> holds what was last blitted to the window.
\<close>

record env_viewer =
  env :: env
  record_video :: bool
  screen :: "draw_call list"
  sim_surface :: simulation_surface
  frame :: int
  video_name :: string
  files :: "string set"
  commands :: "string list"

definition SCREEN_WIDTH :: nat where "SCREEN_WIDTH = 400"
definition SCREEN_HEIGHT :: nat where "SCREEN_HEIGHT = 400"
definition VIDEO_SPEED :: int where "VIDEO_SPEED = 2"
definition OUT_FOLDER :: string where "OUT_FOLDER = ''out''"
definition TMP_FOLDER :: string where "TMP_FOLDER = OUT_FOLDER @ ''/'' @ ''tmp''"

definition clear_video_dir :: "string set \<Rightarrow> string set" where
  "clear_video_dir fs = (if path_exists fs TMP_FOLDER then rmtree TMP_FOLDER fs else fs)"

definition make_video_dir :: "string set \<Rightarrow> error + string set" where
  "make_video_dir fs =
     (case (if \<not> path_exists fs OUT_FOLDER then mkdir OUT_FOLDER fs else Inr fs) of
        Inl e \<Rightarrow> Inl e
      | Inr fs1 \<Rightarrow> mkdir TMP_FOLDER (clear_video_dir fs1))"

text \<open>
  \<^verbatim>\<open>EnvViewer.__init__\<close>, given the environment, the flag, the time stamp
  \<^verbatim>\<open>datetime.now().strftime(...)\<close> and the file system it starts on. Without recording,
  the fields \<open>frame\<close> and \<open>video_name\<close> are never set nor read; the model gives them 0 and
  the empty name.
\<close>

definition EnvViewer_init :: "env \<Rightarrow> bool \<Rightarrow> string \<Rightarrow> string set \<Rightarrow> error + env_viewer" where
  "EnvViewer_init e rv stamp fs =
     (let v = \<lparr>env = e, record_video = rv, screen = [],
               sim_surface = SimulationSurface_init SCREEN_WIDTH SCREEN_HEIGHT,
               frame = 0, video_name = [], files = fs, commands = []\<rparr>
      in if rv then
           (case make_video_dir fs of
              Inl err \<Rightarrow> Inl err
            | Inr fs' \<Rightarrow> Inr (v\<lparr>files := fs', video_name := ''obstacle_'' @ stamp\<rparr>))
         else Inr v)"

definition window_position :: "env_viewer \<Rightarrow> ndarray" where
  "window_position v =
     (case dynamics (env v) of Some d \<Rightarrow> position d | None \<Rightarrow> Arr1 [0, 0])"

text \<open>The name \<^verbatim>\<open>"{}/{}_{:04d}.bmp".format(TMP_FOLDER, video_name, frame)\<close>.\<close>

definition frame_file :: "string \<Rightarrow> int \<Rightarrow> string" where
  "frame_file name k = TMP_FOLDER @ ''/'' @ name @ ''_'' @ format_04d k @ ''.bmp''"

text \<open>
  \<^verbatim>\<open>EnvViewer.display\<close>: recenter, draw the scene, draw the dynamics, blit, and with
  recording count the frame and save it. An exception leaves the call at once.
\<close>

definition display :: "env_viewer \<Rightarrow> error + env_viewer" where
  "display v =
     (case move_display_window_to (sim_surface v) (window_position v) of
        Inl e \<Rightarrow> Inl e
      | Inr s1 \<Rightarrow>
          (case Scene2dGraphics_display (scene (env v)) s1 of
             Inl e \<Rightarrow> Inl e
           | Inr s2 \<Rightarrow>
               (case display_dynamics (dynamics (env v)) s2 of
                  Inl e \<Rightarrow> Inl e
                | Inr s3 \<Rightarrow>
                    (let v1 = v\<lparr>sim_surface := s3, screen := drawn s3\<rparr>
                     in if record_video v1 then
                          (let v2 = v1\<lparr>frame := frame v1 + 1\<rparr>
                           in Inr (v2\<lparr>files := insert (frame_file (video_name v2) (frame v2))
                                                  (files v2)\<rparr>))
                        else Inr v1))))"

text \<open>
  A run of display cycles. Before each call the environment has moved on to its next
  state and the pending events have been handed to the surface.
\<close>

fun frames :: "env_viewer \<Rightarrow> (env \<times> event list) list \<Rightarrow> error + env_viewer" where
  "frames v [] = Inr v"
| "frames v ((e, evs) # rest) =
     (case display (v\<lparr>env := e, sim_surface := foldl handle_event (sim_surface v) evs\<rparr>) of
        Inl err \<Rightarrow> Inl err
      | Inr v' \<Rightarrow> frames v' rest)"

text \<open>The two shell commands of \<^verbatim>\<open>close\<close>.\<close>

definition ffmpeg_command :: "env_viewer \<Rightarrow> string" where
  "ffmpeg_command v =
     ''ffmpeg -r '' @ str_int (VIDEO_SPEED * SIMULATION_FREQUENCY (env v)) @ '' -i ''
       @ TMP_FOLDER @ ''/'' @ video_name v @ ''_%04d.bmp -vcodec libx264 -crf 25 ''
       @ OUT_FOLDER @ ''/'' @ video_name v @ ''.avi''"

definition convert_command :: "env_viewer \<Rightarrow> int \<Rightarrow> string" where
  "convert_command v delay =
     ''convert -delay '' @ str_int delay @ '' -loop 0 ''
       @ TMP_FOLDER @ ''/'' @ video_name v @ ''*.bmp ''
       @ OUT_FOLDER @ ''/'' @ video_name v @ ''.gif''"

text \<open>
  \<^verbatim>\<open>os.system(cmd)\<close> runs an external program: \<open>system cmd fs\<close> is the file system it
  leaves and its exit status, whatever the program does. The status is not read.
\<close>

definition os_system ::
  "(string \<Rightarrow> string set \<Rightarrow> string set \<times> int) \<Rightarrow> string \<Rightarrow> env_viewer \<Rightarrow> env_viewer" where
  "os_system system cmd v =
     v\<lparr>files := fst (system cmd (files v)), commands := commands v @ [cmd]\<rparr>"

text \<open>
  \<^verbatim>\<open>EnvViewer.close\<close>. \<^verbatim>\<open>pygame.quit()\<close> touches none of the fields. The delay
  divides by twice the simulation frequency, between the two commands.
\<close>

definition close ::
  "(string \<Rightarrow> string set \<Rightarrow> string set \<times> int) \<Rightarrow> env_viewer \<Rightarrow> error + env_viewer" where
  "close system v =
     (if record_video v then
        (let v1 = os_system system (ffmpeg_command v) v
         in if VIDEO_SPEED * SIMULATION_FREQUENCY (env v) = 0 then Inl ZeroDivisionError
            else
              (let delay = np_round (100 / real_of_int (VIDEO_SPEED * SIMULATION_FREQUENCY (env v)));
                   v2 = os_system system (convert_command v delay) v1
               in Inr (v2\<lparr>files := clear_video_dir (files v2)\<rparr>)))
      else Inr v)"

section \<open>Auxiliary notions\<close>

text \<open>
  Reading a string of decimal digits back as a number; it is used to tell the names of
  the frame files apart.
\<close>

definition digit_val :: "char \<Rightarrow> nat" where
  "digit_val c = of_char c - 48"

definition digits_value :: "string \<Rightarrow> nat" where
  "digits_value ds = foldl (\<lambda>a c. 10 * a + digit_val c) 0 ds"

text \<open>
  A position as the environment gives it: a column vector of shape \<open>(2, 1)\<close>. An
  environment is well formed when it has an agent and the agent and every obstacle have
  such a position.
\<close>

fun column_vector :: "ndarray \<Rightarrow> bool" where
  "column_vector (Arr2 [[x], [y]]) = True"
| "column_vector a = False"

definition well_formed_env :: "env \<Rightarrow> bool" where
  "well_formed_env e =
     ((case dynamics e of None \<Rightarrow> False | Some d \<Rightarrow> column_vector (position d))
      \<and> list_all (\<lambda>ob. column_vector (position ob)) (obstacles (scene e)))"

text \<open>An environment with one obstacle and an agent, at 15 frames per second.\<close>

definition example_env :: env where
  "example_env =
     \<lparr>scene = \<lparr>obstacles = [\<lparr>position = Arr2 [[5], [5]], radius = 1\<rparr>]\<rparr>,
      dynamics = Some \<lparr>position = Arr2 [[1], [2]]\<rparr>,
      SIMULATION_FREQUENCY = 15\<rparr>"

section \<open>Truncation toward zero\<close>

lemma py_int_mono: "x \<le> y \<Longrightarrow> py_int x \<le> py_int y"
proof -
  assume le: "x \<le> y"
  consider (neg) "y < 0" | (mixed) "x < 0" "0 \<le> y" | (pos) "0 \<le> x"
    by linarith
  then show ?thesis
  proof cases
    case neg
    with le show ?thesis by (simp add: py_int_def ceiling_mono)
  next
    case mixed
    have "\<lceil>x\<rceil> \<le> 0" using mixed(1) by (simp add: ceiling_le_iff)
    moreover have "0 \<le> \<lfloor>y\<rfloor>" using mixed(2) by simp
    ultimately have "\<lceil>x\<rceil> \<le> \<lfloor>y\<rfloor>" by (rule order_trans)
    then show ?thesis using mixed by (simp add: py_int_def)
  next
    case pos
    with le show ?thesis by (simp add: py_int_def floor_mono)
  qed
qed

lemma py_int_abs:
  "\<bar>real_of_int (py_int x)\<bar> \<le> \<bar>x\<bar> \<and> \<bar>x\<bar> < \<bar>real_of_int (py_int x)\<bar> + 1"
  unfolding py_int_def by (auto; linarith)


section \<open>World to pixel\<close>

text \<open>
  C1, as the code has it. Where the origin has the entries \<open>ox = origin[0, 0]\<close> and
  \<open>oy = origin[1, 0]\<close>, \<open>pos2pix\<close> returns per axis the difference to the origin, scaled
  and truncated toward zero: the ceiling of a negative product and the floor of any other.
  The result is never farther from zero than the exact product, and less than one pixel
  away from it. It is not rounded to the nearest integer.
\<close>

theorem pos2pix_truncates:
  assumes "getitem2 (origin s) 0 0 = Inr ox" and "getitem2 (origin s) 1 0 = Inr oy"
  shows "\<exists>px py. pos2pix s x y = Inr (px, py)
           \<and> px = (if (x - ox) * scaling s < 0 then \<lceil>(x - ox) * scaling s\<rceil>
                   else \<lfloor>(x - ox) * scaling s\<rfloor>)
           \<and> py = (if (y - oy) * scaling s < 0 then \<lceil>(y - oy) * scaling s\<rceil>
                   else \<lfloor>(y - oy) * scaling s\<rfloor>)
           \<and> \<bar>real_of_int px\<bar> \<le> \<bar>(x - ox) * scaling s\<bar>
           \<and> \<bar>(x - ox) * scaling s\<bar> < \<bar>real_of_int px\<bar> + 1
           \<and> \<bar>real_of_int py\<bar> \<le> \<bar>(y - oy) * scaling s\<bar>
           \<and> \<bar>(y - oy) * scaling s\<bar> < \<bar>real_of_int py\<bar> + 1"
  using assms py_int_abs [of "(x - ox) * scaling s"] py_int_abs [of "(y - oy) * scaling s"]
  by (simp add: pos2pix_def pix_def py_int_def)

theorem pos2pix_truncates_witness:
  "getitem2 (origin (SimulationSurface_init 400 400\<lparr>origin := Arr2 [[0], [0]]\<rparr>)) 0 0 = Inr 0
   \<and> getitem2 (origin (SimulationSurface_init 400 400\<lparr>origin := Arr2 [[0], [0]]\<rparr>)) 1 0 = Inr 0
   \<and> pos2pix (SimulationSurface_init 400 400\<lparr>origin := Arr2 [[0], [0]]\<rparr>) (1 / 8) (- (1 / 8))
       = Inr (1, - 1)"
  using pos2pix_truncates
    [of "SimulationSurface_init 400 400\<lparr>origin := Arr2 [[0], [0]]\<rparr>" 0 0 "1 / 8" "- (1 / 8)"]
  by (simp add: SimulationSurface_init_def)

text \<open>
  C1 as stated fails: with the origin at \<open>(0, 0)\<close> and the scale 15, the world point
  \<open>(1/8, 0)\<close> has the exact product \<open>1.875\<close>, which rounds to 2, and the code returns 1.
\<close>

theorem pos2pix_round_counterexample:
  "pos2pix (SimulationSurface_init 400 400\<lparr>origin := Arr2 [[0], [0]]\<rparr>) (1 / 8) 0
     \<noteq> Inr (round ((1 / 8 - 0) * 15 :: real), round ((0 - 0) * 15 :: real))"
  by (simp add: pos2pix_def pix_def py_int_def SimulationSurface_init_def round_def)

text \<open>
  C5, as the code has it. \<open>pix\<close> returns the product of the length and the scale truncated
  toward zero: its floor when the product is not negative, its ceiling when it is. For a
  scale that is not negative the result is monotonically non-decreasing in the length.
\<close>

theorem pix_truncates_mono:
  "(0 \<le> len * scaling s \<longrightarrow> pix s len = \<lfloor>len * scaling s\<rfloor>)
   \<and> (len * scaling s < 0 \<longrightarrow> pix s len = \<lceil>len * scaling s\<rceil>)
   \<and> (0 \<le> scaling s \<longrightarrow> l1 \<le> l2 \<longrightarrow> pix s l1 \<le> pix s l2)"
proof -
  have "pix s l1 \<le> pix s l2" if "0 \<le> scaling s" "l1 \<le> l2"
  proof -
    have "l1 * scaling s \<le> l2 * scaling s"
      using that(2) that(1) by (rule mult_right_mono)
    then show ?thesis
      unfolding pix_def by (rule py_int_mono)
  qed
  then show ?thesis
    by (simp add: pix_def py_int_def)
qed

theorem pix_truncates_mono_witness:
  "0 \<le> 1 / 2 * scaling (SimulationSurface_init 400 400)
   \<and> pix (SimulationSurface_init 400 400) (1 / 2) = 7
   \<and> - (1 / 2) * scaling (SimulationSurface_init 400 400) < 0
   \<and> pix (SimulationSurface_init 400 400) (- (1 / 2)) = - 7
   \<and> 0 \<le> scaling (SimulationSurface_init 400 400) \<and> - (1 / 2) \<le> (1 / 2 :: real)
   \<and> pix (SimulationSurface_init 400 400) (- (1 / 2)) \<le> pix (SimulationSurface_init 400 400) (1 / 2)"
  using pix_truncates_mono [of "1 / 2" "SimulationSurface_init 400 400" "- (1 / 2)" "1 / 2"]
    pix_truncates_mono [of "- (1 / 2)" "SimulationSurface_init 400 400" "- (1 / 2)" "1 / 2"]
  by (simp add: SimulationSurface_init_def)

text \<open>
  C5 as stated fails: at the scale 15 the length \<open>-1/2\<close> has the product \<open>-7.5\<close>, whose
  floor is \<open>-8\<close>, and the code returns \<open>-7\<close>; and at the scale \<open>-1\<close> the longer length
  gets the smaller result.
\<close>

theorem pix_floor_counterexample:
  "pix (SimulationSurface_init 400 400) (- (1 / 2)) \<noteq> \<lfloor>- (1 / 2) * 15 :: real\<rfloor>
   \<and> \<not> pix (SimulationSurface_init 400 400\<lparr>scaling := - 1\<rparr>) 0
         \<le> pix (SimulationSurface_init 400 400\<lparr>scaling := - 1\<rparr>) 1"
  by (simp add: pix_def py_int_def SimulationSurface_init_def)

section \<open>Rounding to a double\<close>

text \<open>
  The exponent brackets its argument, the rounded value is a significand of at most 53
  bits times the spacing, and it is at most half a spacing from the exact value.
\<close>

lemma log2_floor_bounds: "0 < n \<Longrightarrow> 2 ^ log2_floor n \<le> n \<and> n < 2 ^ Suc (log2_floor n)"
proof (induction n rule: log2_floor.induct)
  case (1 n)
  show ?case
  proof (cases "n < 2")
    case True
    with "1.prems" have "n = 1" by simp
    then show ?thesis by (simp add: log2_floor.simps)
  next
    case False
    then have "0 < n div 2" by simp
    with False have ih: "2 ^ log2_floor (n div 2) \<le> n div 2 \<and> n div 2 < 2 ^ Suc (log2_floor (n div 2))"
      using "1.IH" by simp
    have eq: "log2_floor n = Suc (log2_floor (n div 2))"
      using False by (subst log2_floor.simps) simp
    from ih have "2 * 2 ^ log2_floor (n div 2) \<le> n" by linarith
    moreover from ih have "n < 2 * 2 ^ Suc (log2_floor (n div 2))" by linarith
    ultimately show ?thesis by (simp add: eq)
  qed
qed

lemma pow2_pos: "0 < pow2 e"
  by (simp add: pow2_def)

lemma pow2_of_nat: "pow2 (int n) = 2 ^ n"
  by (simp add: pow2_def)

lemma pow2_neg_of_nat: "pow2 (- int n) = 1 / 2 ^ n"
  by (auto simp add: pow2_def)

lemma pow2_Suc: "pow2 (e + 1) = 2 * pow2 e"
proof (cases "0 \<le> e")
  case True
  then show ?thesis by (simp add: pow2_def nat_add_distrib)
next
  case False
  define n where "n = nat (- e - 1)"
  have e: "e = - int (Suc n)"
    using False by (simp add: n_def)
  have "- int (Suc n) + 1 = - int n" by simp
  then have "pow2 (e + 1) = pow2 (- int n)"
    unfolding e by (rule arg_cong)
  then have "pow2 (e + 1) = 1 / 2 ^ n"
    by (simp only: pow2_neg_of_nat)
  moreover have "pow2 e = 1 / 2 ^ Suc n"
    unfolding e by (rule pow2_neg_of_nat)
  ultimately show ?thesis by simp
qed

lemma nat_floor_bounds:
  assumes "1 \<le> y"
  shows "0 < nat \<lfloor>y\<rfloor> \<and> real (nat \<lfloor>y\<rfloor>) \<le> y \<and> y < real (nat \<lfloor>y\<rfloor>) + 1"
proof -
  have "1 \<le> \<lfloor>y\<rfloor>" using assms by simp
  then have "real (nat \<lfloor>y\<rfloor>) = of_int \<lfloor>y\<rfloor>" and "0 < nat \<lfloor>y\<rfloor>"
    by simp_all
  then show ?thesis by simp
qed

lemma exponent_bounds:
  assumes "0 < x"
  shows "pow2 (exponent x) \<le> x \<and> x < pow2 (exponent x + 1)"
proof -
  have "pow2 (exponent x) \<le> x \<and> x < 2 * pow2 (exponent x)"
  proof (cases "1 \<le> x")
    case True
    let ?n = "nat \<lfloor>x\<rfloor>"
    have n: "0 < ?n" and lo: "real ?n \<le> x" and hi: "x < real ?n + 1"
      using nat_floor_bounds [OF True] by blast+
    from log2_floor_bounds [OF n]
    have "(2::nat) ^ log2_floor ?n \<le> ?n" and "?n + 1 \<le> 2 ^ Suc (log2_floor ?n)" by simp_all
    then have "real (2 ^ log2_floor ?n) \<le> real ?n"
      and "real (?n + 1) \<le> real (2 ^ Suc (log2_floor ?n))"
      by (simp_all only: of_nat_le_iff)
    then have p: "(2::real) ^ log2_floor ?n \<le> real ?n"
      and q: "real ?n + 1 \<le> 2 ^ Suc (log2_floor ?n)"
      by simp_all
    have e: "pow2 (exponent x) = 2 ^ log2_floor ?n"
      using True by (simp add: exponent_def pow2_of_nat)
    from p lo have "(2::real) ^ log2_floor ?n \<le> x"
      by (rule order_trans)
    moreover from hi q have "x < 2 ^ Suc (log2_floor ?n)"
      by (rule less_le_trans)
    ultimately show ?thesis
      by (simp add: e)
  next
    case False
    let ?k = "log2_floor (nat \<lfloor>1 / x\<rfloor>)"
    let ?n = "nat \<lfloor>1 / x\<rfloor>"
    have inv: "1 \<le> 1 / x" using False assms by simp
    have n: "0 < ?n" and lo: "real ?n \<le> 1 / x" and hi: "1 / x < real ?n + 1"
      using nat_floor_bounds [OF inv] by blast+
    from log2_floor_bounds [OF n]
    have "(2::nat) ^ ?k \<le> ?n" and "?n + 1 \<le> 2 ^ Suc ?k" by simp_all
    then have "real (2 ^ ?k) \<le> real ?n" and "real (?n + 1) \<le> real (2 ^ Suc ?k)"
      by (simp_all only: of_nat_le_iff)
    then have p: "(2::real) ^ ?k \<le> real ?n" and q: "real ?n + 1 \<le> 2 ^ Suc ?k"
      by simp_all
    from p lo have a: "(2::real) ^ ?k \<le> 1 / x"
      by (rule order_trans)
    from hi q have "1 / x < 2 ^ Suc ?k"
      by (rule less_le_trans)
    then have b: "1 / x < 2 * 2 ^ ?k"
      by simp
    from a assms have up: "x \<le> 1 / 2 ^ ?k"
      by (simp add: field_simps)
    from b assms have down: "1 / (2 * 2 ^ ?k) < x"
      by (simp add: field_simps)
    have whole: "pow2 (- int ?k) = 1 / 2 ^ ?k"
      by (rule pow2_neg_of_nat)
    have half: "pow2 (- int ?k - 1) = 1 / (2 * 2 ^ ?k)"
    proof -
      have "- int ?k - 1 = - int (Suc ?k)" by simp
      then have "pow2 (- int ?k - 1) = pow2 (- int (Suc ?k))" by (rule arg_cong)
      then show ?thesis by (simp only: pow2_neg_of_nat power_Suc)
    qed
    show ?thesis
    proof (cases "x = pow2 (- int ?k)")
      case True
      then have "exponent x = - int ?k"
        using False by (simp add: exponent_def Let_def)
      then have "pow2 (exponent x) = x"
        using True by (simp only:)
      with assms show ?thesis by simp
    next
      case ne: False
      then have "exponent x = - int ?k - 1"
        using False by (simp add: exponent_def Let_def)
      then have e: "pow2 (exponent x) = 1 / (2 * 2 ^ ?k)"
        by (simp only: half)
      have "x \<noteq> 1 / 2 ^ ?k"
        using ne by (simp add: whole)
      with up have "x < 1 / 2 ^ ?k"
        by simp
      with down show ?thesis
        by (simp add: e)
    qed
  qed
  then show ?thesis
    by (simp only: pow2_Suc)
qed

lemma np_round_error: "\<bar>real_of_int (np_round y) - y\<bar> \<le> 1 / 2"
  unfolding np_round_def by (auto; linarith)

lemma double_error:
  assumes "x \<noteq> 0"
  shows "\<bar>double x - x\<bar> \<le> pow2 (max (exponent \<bar>x\<bar>) (- 1022) - 52) / 2"
proof -
  let ?u = "pow2 (max (exponent \<bar>x\<bar>) (- 1022) - 52)"
  have u: "0 < ?u" by (rule pow2_pos)
  have "sgn x * \<bar>x\<bar> = x"
    by (rule mult_sgn_abs)
  then have "double x - x = sgn x * (real_of_int (np_round (\<bar>x\<bar> / ?u)) * ?u - \<bar>x\<bar>)"
    using assms by (simp add: double_def Let_def right_diff_distrib mult.assoc)
  also have "\<dots> = sgn x * (real_of_int (np_round (\<bar>x\<bar> / ?u)) - \<bar>x\<bar> / ?u) * ?u"
    using u by (simp add: algebra_simps)
  finally have "\<bar>double x - x\<bar> = \<bar>real_of_int (np_round (\<bar>x\<bar> / ?u)) - \<bar>x\<bar> / ?u\<bar> * ?u"
    using assms u by (simp add: abs_mult abs_sgn_eq)
  also have "\<dots> \<le> 1 / 2 * ?u"
    using np_round_error [of "\<bar>x\<bar> / ?u"] u by (intro mult_right_mono) simp_all
  finally show ?thesis by simp
qed

lemma pow2_add_nat: "pow2 (e + int n) = 2 ^ n * pow2 e"
proof (induction n)
  case 0
  show ?case by simp
next
  case (Suc n)
  have "e + int (Suc n) = (e + int n) + 1" by simp
  then have "pow2 (e + int (Suc n)) = pow2 ((e + int n) + 1)" by (rule arg_cong)
  also have "\<dots> = 2 * pow2 (e + int n)" by (rule pow2_Suc)
  finally show ?case by (simp add: Suc.IH)
qed

lemma pow2_mono: "a \<le> b \<Longrightarrow> pow2 a \<le> pow2 b"
proof -
  assume "a \<le> b"
  then have "b = a + int (nat (b - a))" by simp
  then have "pow2 b = 2 ^ nat (b - a) * pow2 a"
    using pow2_add_nat [of a "nat (b - a)"] by simp
  moreover have "(1::real) \<le> 2 ^ nat (b - a)" by simp
  ultimately show ?thesis
    using pow2_pos [of a] by (simp add: mult_le_cancel_right1)
qed

lemma np_round_le: "y \<le> real_of_int n \<Longrightarrow> np_round y \<le> n"
  unfolding np_round_def by (auto; linarith)

lemma np_round_nonneg: "0 \<le> y \<Longrightarrow> 0 \<le> np_round y"
  unfolding np_round_def by (auto; linarith)

lemma double_significand:
  assumes "x \<noteq> 0"
  shows "\<exists>m. double x = sgn x * real_of_int m * pow2 (max (exponent \<bar>x\<bar>) (- 1022) - 52)
            \<and> 0 \<le> m \<and> m \<le> 2 ^ 53"
proof -
  let ?E = "max (exponent \<bar>x\<bar>) (- 1022)"
  let ?u = "pow2 (?E - 52)"
  let ?m = "np_round (\<bar>x\<bar> / ?u)"
  have u: "0 < ?u" by (rule pow2_pos)
  have "\<bar>x\<bar> < pow2 (exponent \<bar>x\<bar> + 1)"
    using exponent_bounds [of "\<bar>x\<bar>"] assms by simp
  also have "\<dots> \<le> pow2 (?E + 1)"
    by (rule pow2_mono) simp
  also have "\<dots> = 2 ^ 53 * ?u"
  proof -
    have "?E + 1 = (?E - 52) + int 53" by simp
    then have "pow2 (?E + 1) = pow2 ((?E - 52) + int 53)" by (rule arg_cong)
    then show ?thesis by (simp only: pow2_add_nat)
  qed
  finally have "\<bar>x\<bar> / ?u \<le> 2 ^ 53"
    using u by (simp add: field_simps)
  then have "\<bar>x\<bar> / ?u \<le> real_of_int (2 ^ 53)"
    by simp
  then have "?m \<le> 2 ^ 53"
    by (rule np_round_le)
  moreover have "0 \<le> ?m"
    using u by (intro np_round_nonneg) simp
  moreover have "double x = sgn x * real_of_int ?m * ?u"
    using assms by (simp add: double_def Let_def)
  ultimately show ?thesis by blast
qed

lemmas double_eval = double_def exponent_def log2_floor.simps pow2_def np_round_def Let_def

lemma double_tenth: "double (1 / 10) = 3602879701896397 / 36028797018963968"
  by (simp add: double_eval)


section \<open>Recentering\<close>

text \<open>
  C3. For a positive scale, \<open>move_display_window_to\<close> on the world point \<open>(px, py)\<close>, a
  column vector as every position of the environment is, returns the surface with the
  origin \<open>(px - c * width / S, py - height / (2 * S))\<close> and every other field as it was.
  On the flat \<open>[0, 0]\<close> that \<open>window_position\<close> passes when nothing is tracked, the origin
  read by \<open>pos2pix\<close> is \<open>(0 - c * width / S, 0 - height / (2 * S))\<close>, and again no other
  field changes.
\<close>

theorem move_display_window_to_sets_origin:
  assumes "0 < scaling s"
  shows "move_display_window_to s (Arr2 [[px], [py]]) =
           Inr (s\<lparr>origin := Arr2 [[px - centering_position s * real (width s) / scaling s],
                                  [py - real (height s) / (2 * scaling s)]]\<rparr>)
         \<and> (\<exists>s'. move_display_window_to s (Arr1 [0, 0]) = Inr s'
               \<and> getitem2 (origin s') 0 0
                   = Inr (0 - centering_position s * real (width s) / scaling s)
               \<and> getitem2 (origin s') 1 0 = Inr (0 - real (height s) / (2 * scaling s))
               \<and> s' = s\<lparr>origin := origin s'\<rparr>)"
  using assms by (simp add: move_display_window_to_def)

theorem move_display_window_to_sets_origin_witness:
  "0 < scaling (SimulationSurface_init 400 400)
   \<and> move_display_window_to (SimulationSurface_init 400 400) (Arr2 [[3], [4]]) =
       Inr (SimulationSurface_init 400 400\<lparr>origin := Arr2 [[3 - 40 / 3], [4 - 40 / 3]]\<rparr>)"
  using move_display_window_to_sets_origin [of "SimulationSurface_init 400 400" 3 4]
  by (simp add: SimulationSurface_init_def)




text \<open>
  C10, as the code has it. On a freshly constructed surface \<open>pos2pix\<close> raises IndexError,
  for every point: the origin is still the flat array. After \<open>move_display_window_to\<close>
  (with a scale other than zero) it returns a pixel, and that both for a column-vector
  position and for a flat pair, which numpy broadcasts against the offset column to a
  matrix of two rows.
\<close>

theorem pos2pix_needs_matrix_origin:
  "pos2pix (SimulationSurface_init w h) x y = Inl IndexError
   \<and> (scaling s \<noteq> 0 \<longrightarrow>
        (\<exists>s' p. move_display_window_to s (Arr2 [[px], [py]]) = Inr s' \<and> pos2pix s' x y = Inr p)
        \<and> (\<exists>s' p. move_display_window_to s (Arr1 [px, py]) = Inr s' \<and> pos2pix s' x y = Inr p))"
  by (simp add: pos2pix_def SimulationSurface_init_def move_display_window_to_def)

theorem pos2pix_needs_matrix_origin_witness:
  "scaling (SimulationSurface_init 400 400) \<noteq> 0
   \<and> pos2pix (SimulationSurface_init 400 400) 5 5 = Inl IndexError
   \<and> (\<exists>s'. move_display_window_to (SimulationSurface_init 400 400) (Arr2 [[0], [0]]) = Inr s'
          \<and> pos2pix s' 5 5 = Inr (275, 275))"
  using pos2pix_needs_matrix_origin [of 400 400 5 5 "SimulationSurface_init 400 400" 0 0]
  by (auto simp add: SimulationSurface_init_def pos2pix_def pix_def py_int_def
      move_display_window_to_def)

text \<open>
  C10 as stated fails: a column vector is not the only position after which \<open>pos2pix\<close>
  is defined. After recentering the fresh surface on the flat array \<open>[0, 0]\<close>, the
  conversion of \<open>(1, 1)\<close> returns the pixel \<open>(215, 215)\<close>.
\<close>

theorem pos2pix_after_flat_recenter_counterexample:
  "(case move_display_window_to (SimulationSurface_init 400 400) (Arr1 [0, 0]) of
      Inl e \<Rightarrow> Inl e
    | Inr s' \<Rightarrow> pos2pix s' 1 1) = Inr (215, 215)"
  by (simp add: move_display_window_to_def pos2pix_def SimulationSurface_init_def pix_def
      py_int_def)

section \<open>Key events\<close>

lemma scaling_foldl_handle_event:
  "scaling (foldl handle_event s es) =
     scaling s * SCALING_FACTOR ^ count_list es (KEYDOWN K_o)
       / SCALING_FACTOR ^ count_list es (KEYDOWN K_l)"
proof (induction es arbitrary: s)
  case Nil
  show ?case by simp
next
  case (Cons e es)
  show ?case
  proof (cases e)
    case (KEYDOWN key)
    then show ?thesis
      by (simp add: Cons.IH Let_def K_l_def K_o_def K_m_def K_k_def SCALING_FACTOR_def)
  qed (simp_all add: Cons.IH)
qed

text \<open>
  C6. Over exact arithmetic, a sequence of events with two presses of the zoom-in key
  \<open>o\<close> and two of the zoom-out key \<open>l\<close>, in any order and with any other events between
  them, leaves the scale as it was.
\<close>

theorem zoom_twice_each_restores_scaling:
  assumes "count_list es (KEYDOWN K_o) = 2" and "count_list es (KEYDOWN K_l) = 2"
  shows "scaling (foldl handle_event s es) = scaling s"
  using assms by (simp add: scaling_foldl_handle_event SCALING_FACTOR_def)

theorem zoom_twice_each_restores_scaling_witness:
  "count_list [KEYDOWN K_o, KEYDOWN K_l, KEYDOWN K_l, KEYDOWN K_o] (KEYDOWN K_o) = 2
   \<and> count_list [KEYDOWN K_o, KEYDOWN K_l, KEYDOWN K_l, KEYDOWN K_o] (KEYDOWN K_l) = 2
   \<and> scaling (foldl handle_event (SimulationSurface_init 400 400)
        [KEYDOWN K_o, KEYDOWN K_l, KEYDOWN K_l, KEYDOWN K_o]) = 15"
  using zoom_twice_each_restores_scaling
    [of "[KEYDOWN K_o, KEYDOWN K_l, KEYDOWN K_l, KEYDOWN K_o]" "SimulationSurface_init 400 400"]
  by (simp add: K_o_def K_l_def SimulationSurface_init_def)

text \<open>
  C7. \<open>handle_event\<close> changes at most one field. The pan keys \<open>m\<close> and \<open>k\<close> change only
  the centering fraction, by minus and plus 0.1; the zoom keys \<open>l\<close> and \<open>o\<close> change only
  the scale, by the factor 1/1.3 and 1.3; every other event, a press of another key
  included, returns the surface as it was.
\<close>

theorem handle_event_changes_one_field:
  "handle_event s (KEYDOWN K_m) = s\<lparr>centering_position := centering_position s - 1 / 10\<rparr>
   \<and> handle_event s (KEYDOWN K_k) = s\<lparr>centering_position := centering_position s + 1 / 10\<rparr>
   \<and> handle_event s (KEYDOWN K_l) = s\<lparr>scaling := scaling s * (1 / (13 / 10))\<rparr>
   \<and> handle_event s (KEYDOWN K_o) = s\<lparr>scaling := scaling s * (13 / 10)\<rparr>
   \<and> (e \<notin> {KEYDOWN K_m, KEYDOWN K_k, KEYDOWN K_l, KEYDOWN K_o} \<longrightarrow> handle_event s e = s)"
  by (cases e)
    (simp_all add: Let_def K_l_def K_o_def K_m_def K_k_def SCALING_FACTOR_def MOVING_FACTOR_def)

theorem handle_event_changes_one_field_witness:
  "KEYDOWN 97 \<notin> {KEYDOWN K_m, KEYDOWN K_k, KEYDOWN K_l, KEYDOWN K_o}
   \<and> handle_event (SimulationSurface_init 400 400) (KEYDOWN 97) = SimulationSurface_init 400 400
   \<and> handle_event (SimulationSurface_init 400 400) (KEYDOWN K_k) =
       SimulationSurface_init 400 400\<lparr>centering_position := 3 / 5\<rparr>"
  using handle_event_changes_one_field [of "SimulationSurface_init 400 400" "KEYDOWN 97"]
  by (simp add: K_l_def K_o_def K_m_def K_k_def SimulationSurface_init_def)

section \<open>Frame files\<close>

lemma digit_val_digit_char: "d < 10 \<Longrightarrow> digit_val (digit_char d) = d"
proof -
  assume "d < 10"
  then have "d \<in> {0, 1, 2, 3, 4, 5, 6, 7, 8, 9}" by auto
  then show ?thesis
    by (auto simp add: digit_val_def digit_char_def)
qed

lemma digits_value_snoc: "digits_value (ds @ [c]) = 10 * digits_value ds + digit_val c"
  by (simp add: digits_value_def)

lemma digits_value_str_nat: "digits_value (str_nat n) = n"
proof (induction n rule: str_nat.induct)
  case (1 n)
  show ?case
  proof (cases "n < 10")
    case True
    then show ?thesis
      by (subst str_nat.simps) (simp add: digits_value_def digit_val_digit_char)
  next
    case False
    then have "digits_value (str_nat (n div 10)) = n div 10" by (rule "1.IH")
    with False show ?thesis
      by (subst str_nat.simps) (simp add: digits_value_snoc digit_val_digit_char)
  qed
qed

lemma digits_value_zeros:
  "foldl (\<lambda>a c. 10 * a + digit_val c) 0 (replicate k CHR ''0'' @ ds)
     = foldl (\<lambda>a c. 10 * a + digit_val c) 0 ds"
  by (induction k) (simp_all add: digit_val_def)

lemma digits_value_zfill: "digits_value (zfill w ds) = digits_value ds"
  by (simp add: zfill_def digits_value_def digits_value_zeros del: foldl_append)

lemma digits_value_format_04d: "digits_value (format_04d (int k)) = k"
  by (simp add: format_04d_def digits_value_zfill digits_value_str_nat)

lemma length_str_nat_pos: "0 < length (str_nat n)"
  by (subst str_nat.simps) simp

lemma length_str_nat_le: "n < 10 ^ k \<Longrightarrow> 0 < k \<Longrightarrow> length (str_nat n) \<le> k"
proof (induction n arbitrary: k rule: str_nat.induct)
  case (1 n)
  show ?case
  proof (cases "n < 10")
    case True
    with "1.prems" show ?thesis by (subst str_nat.simps) simp
  next
    case False
    obtain j where k: "k = Suc j" using "1.prems"(2) by (cases k) auto
    have "j \<noteq> 0" using False "1.prems"(1) k by (cases j) auto
    moreover have "n div 10 < 10 ^ j" using "1.prems"(1) k by (simp add: less_mult_imp_div_less mult.commute)
    ultimately have "length (str_nat (n div 10)) \<le> j" using "1.IH" [OF False, of j] by simp
    with False k show ?thesis by (subst str_nat.simps) simp
  qed
qed

lemma length_format_04d: "k \<le> 9999 \<Longrightarrow> length (format_04d (int k)) = 4"
proof -
  assume "k \<le> 9999"
  then have "k < 10 ^ 4" by simp
  then have "length (str_nat k) \<le> 4" by (rule length_str_nat_le) simp
  then show ?thesis by (simp add: format_04d_def zfill_def)
qed

lemma frame_file_inj: "frame_file name (int j) = frame_file name (int k) \<Longrightarrow> j = k"
proof -
  assume "frame_file name (int j) = frame_file name (int k)"
  then have "format_04d (int j) = format_04d (int k)" by (simp add: frame_file_def)
  then have "digits_value (format_04d (int j)) = digits_value (format_04d (int k))" by simp
  then show ?thesis by (simp add: digits_value_format_04d)
qed

lemma below_frame_file: "below TMP_FOLDER (frame_file name k)"
  by (simp add: below_def frame_file_def)

lemma not_below_self: "\<not> below d d"
  by (simp add: below_def prefix_def)

lemma not_path_exists_clear_video_dir: "\<not> path_exists (clear_video_dir fs) TMP_FOLDER"
  by (auto simp add: clear_video_dir_def rmtree_def path_exists_def)

lemma make_video_dir_result:
  "\<exists>fs'. make_video_dir fs = Inr fs' \<and> (\<forall>p\<in>fs'. \<not> below TMP_FOLDER p)"
proof -
  have "\<exists>fs1. (if \<not> path_exists fs OUT_FOLDER then mkdir OUT_FOLDER fs else Inr fs) = Inr fs1"
    by (simp add: mkdir_def)
  then obtain fs1 where fs1: "(if \<not> path_exists fs OUT_FOLDER then mkdir OUT_FOLDER fs else Inr fs) = Inr fs1"
    by blast
  have ne: "\<not> path_exists (clear_video_dir fs1) TMP_FOLDER" by (rule not_path_exists_clear_video_dir)
  then have "make_video_dir fs = Inr (insert TMP_FOLDER (clear_video_dir fs1))"
    using fs1 by (simp add: make_video_dir_def mkdir_def)
  moreover have "\<forall>p\<in>insert TMP_FOLDER (clear_video_dir fs1). \<not> below TMP_FOLDER p"
    using ne by (auto simp add: path_exists_def not_below_self)
  ultimately show ?thesis by blast
qed

lemma EnvViewer_init_recording:
  "\<exists>v. EnvViewer_init e True stamp fs = Inr v \<and> frame v = 0 \<and> record_video v
       \<and> video_name v = ''obstacle_'' @ stamp \<and> (\<forall>p\<in>files v. \<not> below TMP_FOLDER p)
       \<and> scaling (sim_surface v) \<noteq> 0"
proof -
  obtain fs' where "make_video_dir fs = Inr fs'" and "\<forall>p\<in>fs'. \<not> below TMP_FOLDER p"
    using make_video_dir_result by blast
  then show ?thesis by (simp add: EnvViewer_init_def SimulationSurface_init_def)
qed

lemma display_recording_step:
  assumes "display v = Inr v'" and "record_video v"
  shows "frame v' = frame v + 1 \<and> files v' = insert (frame_file (video_name v) (frame v + 1)) (files v)
         \<and> video_name v' = video_name v \<and> record_video v'"
  using assms by (auto simp add: display_def Let_def split: sum.splits)

lemma image_upto_Suc: "f ` {1..Suc n} = insert (f 1) ((\<lambda>k. f (Suc k)) ` {1..n})"
proof -
  have "{1..Suc n} = insert 1 (Suc ` {1..n})"
    by (auto simp add: image_iff)
  then have "f ` {1..Suc n} = f ` insert 1 (Suc ` {1..n})"
    by (rule arg_cong)
  then show ?thesis
    by (simp only: image_insert image_image)
qed

lemma frames_recording:
  assumes "frames v cycles = Inr v'" and "record_video v"
  shows "frame v' = frame v + int (length cycles)
         \<and> files v' = files v \<union> (\<lambda>k. frame_file (video_name v) (frame v + int k)) ` {1..length cycles}
         \<and> video_name v' = video_name v \<and> record_video v'"
  using assms
proof (induction cycles arbitrary: v)
  case Nil
  then show ?case by simp
next
  case (Cons c cycles)
  obtain e evs where c: "c = (e, evs)" by (cases c)
  let ?u = "v\<lparr>env := e, sim_surface := foldl handle_event (sim_surface v) evs\<rparr>"
  from Cons.prems(1) c obtain w where w: "display ?u = Inr w" and rest: "frames w cycles = Inr v'"
    by (auto split: sum.splits)
  have step: "frame w = frame v + 1 \<and> files w = insert (frame_file (video_name v) (frame v + 1)) (files v)
         \<and> video_name w = video_name v \<and> record_video w"
    using display_recording_step [OF w] Cons.prems(2) by simp
  have ih: "frame v' = frame w + int (length cycles)
         \<and> files v' = files w \<union> (\<lambda>k. frame_file (video_name w) (frame w + int k)) ` {1..length cycles}
         \<and> video_name v' = video_name w \<and> record_video v'"
    using Cons.IH [OF rest] step by simp
  have "(\<lambda>k. frame_file (video_name v) (frame v + int k)) ` {1..Suc (length cycles)}
        = insert (frame_file (video_name v) (frame v + 1))
            ((\<lambda>k. frame_file (video_name v) (frame v + 1 + int k)) ` {1..length cycles})"
    by (subst image_upto_Suc) (simp add: add.assoc)
  with step ih show ?case by (simp add: add.assoc)
qed

section \<open>The draw pass\<close>

lemma column_vectorE:
  assumes "column_vector a"
  obtains x y where "a = Arr2 [[x], [y]]"
  using assms by (cases a rule: column_vector.cases) simp_all

lemma draw_obstacles_succeeds:
  assumes "list_all (\<lambda>ob. column_vector (position ob)) obs"
    and "origin s = Arr2 [[ox], [oy]]"
  shows "\<exists>s'. draw_obstacles obs s = Inr s' \<and> origin s' = origin s \<and> scaling s' = scaling s"
  using assms
proof (induction obs arbitrary: s)
  case Nil
  show ?case by simp
next
  case (Cons ob obs)
  from Cons.prems(1) have "column_vector (position ob)"
    and rest: "list_all (\<lambda>ob. column_vector (position ob)) obs"
    by simp_all
  then obtain x y where ob: "position ob = Arr2 [[x], [y]]"
    by (auto elim: column_vectorE)
  let ?s1 = "draw_circle s GREY (pix s (x - ox), pix s (y - oy)) (pix s (radius ob)) 0"
  have "origin ?s1 = Arr2 [[ox], [oy]]"
    using Cons.prems(2) by (simp add: draw_circle_def)
  from Cons.IH [OF rest this]
  obtain s' where "draw_obstacles obs ?s1 = Inr s'" and "origin s' = origin ?s1"
    and "scaling s' = scaling ?s1"
    by blast
  then show ?case
    using ob Cons.prems(2) by (simp add: pos2pix_def draw_circle_def)
qed

lemma display_succeeds:
  assumes "scaling (sim_surface v) \<noteq> 0" and "well_formed_env (env v)"
  shows "\<exists>v'. display v = Inr v' \<and> scaling (sim_surface v') = scaling (sim_surface v)"
proof -
  let ?s = "sim_surface v"
  from assms(2) obtain d where d: "dynamics (env v) = Some d" and "column_vector (position d)"
    and obs: "list_all (\<lambda>ob. column_vector (position ob)) (obstacles (scene (env v)))"
    by (auto simp add: well_formed_env_def split: option.splits)
  then obtain x y where pos: "position d = Arr2 [[x], [y]]"
    by (auto elim: column_vectorE)
  let ?ox = "x - centering_position ?s * real (width ?s) / scaling ?s"
  let ?oy = "y - real (height ?s) / (2 * scaling ?s)"
  let ?s1 = "?s\<lparr>origin := Arr2 [[?ox], [?oy]]\<rparr>"
  have move: "move_display_window_to ?s (window_position v) = Inr ?s1"
    using assms(1) d pos by (simp add: move_display_window_to_def window_position_def)
  let ?s1' = "draw_rect ?s1 WHITE [0, 0, int (width ?s1), int (height ?s1)] 0"
  have "origin ?s1' = Arr2 [[?ox], [?oy]]"
    by (simp add: draw_rect_def)
  from draw_obstacles_succeeds [OF obs this]
  obtain s2 where s2: "Scene2dGraphics_display (scene (env v)) ?s1 = Inr s2"
    and o2: "origin s2 = Arr2 [[?ox], [?oy]]" and sc2: "scaling s2 = scaling ?s"
    by (auto simp add: Scene2dGraphics_display_def draw_rect_def)
  have "\<exists>s3. display_dynamics (dynamics (env v)) s2 = Inr s3 \<and> scaling s3 = scaling ?s"
    using d pos o2 sc2 by (simp add: pos2pix_def draw_circle_def)
  then obtain s3 where s3: "display_dynamics (dynamics (env v)) s2 = Inr s3"
    and sc3: "scaling s3 = scaling ?s"
    by blast
  show ?thesis
    unfolding display_def by (simp add: move s2 s3 sc3 Let_def)
qed

lemma scaling_handle_event_nonzero: "scaling s \<noteq> 0 \<Longrightarrow> scaling (handle_event s e) \<noteq> 0"
  by (cases e) (simp_all add: Let_def SCALING_FACTOR_def)

lemma scaling_foldl_handle_event_nonzero:
  "scaling s \<noteq> 0 \<Longrightarrow> scaling (foldl handle_event s es) \<noteq> 0"
  by (induction es arbitrary: s) (simp_all add: scaling_handle_event_nonzero del: handle_event.simps)

lemma frames_succeeds:
  assumes "scaling (sim_surface v) \<noteq> 0" and "list_all (\<lambda>c. well_formed_env (fst c)) cycles"
  shows "\<exists>v'. frames v cycles = Inr v'"
  using assms
proof (induction cycles arbitrary: v)
  case Nil
  show ?case by simp
next
  case (Cons c cycles)
  obtain e evs where c: "c = (e, evs)" by (cases c)
  let ?u = "v\<lparr>env := e, sim_surface := foldl handle_event (sim_surface v) evs\<rparr>"
  have "scaling (sim_surface ?u) \<noteq> 0"
    using Cons.prems(1) by (simp add: scaling_foldl_handle_event_nonzero)
  moreover have "well_formed_env (env ?u)"
    using Cons.prems(2) c by simp
  ultimately obtain w where w: "display ?u = Inr w" and "scaling (sim_surface w) \<noteq> 0"
    using display_succeeds [of ?u] by auto
  moreover have "list_all (\<lambda>c. well_formed_env (fst c)) cycles"
    using Cons.prems(2) by simp
  ultimately obtain v' where "frames w cycles = Inr v'"
    using Cons.IH [of w] by blast
  with w c show ?case by simp
qed

text \<open>
  C2. The claim asks that a draw pass with no agent skips the agent and raises nothing.
  The code does not do so: with \<open>dynamics = None\<close>, \<open>display\<close> never returns normally,
  whatever the rest of the viewer is, and on a freshly constructed viewer with an empty
  scene it raises AttributeError, from the read of \<open>dynamics.position\<close> in
  \<open>display_dynamics\<close>. (\<open>window_position\<close>, called first, does test for a missing agent.)
\<close>

theorem display_without_dynamics_raises:
  "display (v\<lparr>env := (env v)\<lparr>dynamics := None\<rparr>\<rparr>) \<noteq> Inr v'
   \<and> (case EnvViewer_init \<lparr>scene = \<lparr>obstacles = []\<rparr>, dynamics = None, SIMULATION_FREQUENCY = 15\<rparr>
             False [] {} of
        Inl err \<Rightarrow> Inl err
      | Inr v0 \<Rightarrow> display v0) = Inl AttributeError"
  by (simp add: display_def EnvViewer_init_def window_position_def move_display_window_to_def
      Scene2dGraphics_display_def SimulationSurface_init_def draw_rect_def
      split: sum.splits)

section \<open>Recording\<close>

lemma example_frame_files:
  "(\<lambda>k. frame_file (''obstacle_'' @ ''T'') (int k)) ` {1..2}
     = {''out/tmp/obstacle_T_0001.bmp'', ''out/tmp/obstacle_T_0002.bmp''}"
proof -
  have "{1..2::nat} = {1, 2}" by auto
  then show ?thesis
    by (simp add: frame_file_def format_04d_def zfill_def str_nat.simps digit_char_def
        TMP_FOLDER_def OUT_FOLDER_def numeral_3_eq_3)
qed

text \<open>
  C8. A viewer constructed with recording starts; a run of display cycles over
  well-formed environments returns; and whenever a run of \<open>N\<close> cycles returns, the frame
  counter is \<open>N\<close> and the files below the temporary directory are exactly the \<open>N\<close> frame
  files of the indices 1 to \<open>N\<close>, named by the session name, with no file of index 0.
  An index up to 9999 is written with exactly four digits that read back as the index.
  Every display call that returns has added one to the counter and saved under the new
  count.
\<close>

theorem recording_names_frames:
  "\<exists>v0. EnvViewer_init e True stamp fs = Inr v0
     \<and> (list_all (\<lambda>c. well_formed_env (fst c)) cycles \<longrightarrow> (\<exists>v. frames v0 cycles = Inr v))
     \<and> (\<forall>v. frames v0 cycles = Inr v \<longrightarrow>
          frame v = int (length cycles)
          \<and> {p \<in> files v. below TMP_FOLDER p}
              = (\<lambda>k. frame_file (''obstacle_'' @ stamp) (int k)) ` {1..length cycles}
          \<and> card {p \<in> files v. below TMP_FOLDER p} = length cycles
          \<and> frame_file (''obstacle_'' @ stamp) 0 \<notin> files v)
     \<and> (\<forall>k\<in>{1..length cycles}. k \<le> 9999 \<longrightarrow>
          length (format_04d (int k)) = 4 \<and> digits_value (format_04d (int k)) = k)
     \<and> (\<forall>u u'. record_video u \<longrightarrow> display u = Inr u' \<longrightarrow>
          frame u' = frame u + 1
          \<and> files u' = insert (frame_file (video_name u) (frame u')) (files u))"
proof -
  let ?name = "''obstacle_'' @ stamp"
  let ?img = "(\<lambda>k. frame_file ?name (int k)) ` {1..length cycles}"
  from EnvViewer_init_recording [of e stamp fs]
  obtain v0 where init: "EnvViewer_init e True stamp fs = Inr v0"
    and v0: "frame v0 = 0" "record_video v0" "video_name v0 = ?name"
      "\<forall>p\<in>files v0. \<not> below TMP_FOLDER p" "scaling (sim_surface v0) \<noteq> 0"
    by blast
  have returns: "list_all (\<lambda>c. well_formed_env (fst c)) cycles \<longrightarrow> (\<exists>v. frames v0 cycles = Inr v)"
    using frames_succeeds [OF v0(5)] by blast
  have inj: "inj_on (\<lambda>k. frame_file ?name (int k)) {1..length cycles}"
    by (rule inj_onI) (rule frame_file_inj)
  have counted: "frame v = int (length cycles)
          \<and> {p \<in> files v. below TMP_FOLDER p} = ?img
          \<and> card {p \<in> files v. below TMP_FOLDER p} = length cycles
          \<and> frame_file ?name 0 \<notin> files v" if run: "frames v0 cycles = Inr v" for v
  proof -
    from frames_recording [OF run v0(2)] v0
    have v: "frame v = int (length cycles)" "files v = files v0 \<union> ?img"
      by simp_all
    have img: "{p \<in> files v. below TMP_FOLDER p} = ?img"
      using v(2) v0(4) by (auto simp add: below_frame_file)
    have "card ?img = length cycles"
      using inj by (simp add: card_image)
    with img have card: "card {p \<in> files v. below TMP_FOLDER p} = length cycles"
      by simp
    have zero: "frame_file ?name 0 \<notin> files v"
    proof
      assume "frame_file ?name 0 \<in> files v"
      then have "frame_file ?name (int 0) \<in> {p \<in> files v. below TMP_FOLDER p}"
        by (simp add: below_frame_file)
      then obtain k where "k \<in> {1..length cycles}"
        and "frame_file ?name (int 0) = frame_file ?name (int k)"
        unfolding img by blast
      then show False
        using frame_file_inj [of ?name 0 k] by simp
    qed
    from v(1) img card zero show ?thesis
      by (intro conjI)
  qed
  have digits: "\<forall>k\<in>{1..length cycles}. k \<le> 9999 \<longrightarrow>
               length (format_04d (int k)) = 4 \<and> digits_value (format_04d (int k)) = k"
    by (simp add: length_format_04d digits_value_format_04d)
  have step: "\<forall>u u'. record_video u \<longrightarrow> display u = Inr u' \<longrightarrow>
               frame u' = frame u + 1
               \<and> files u' = insert (frame_file (video_name u) (frame u')) (files u)"
    using display_recording_step by simp
  from init returns counted digits step show ?thesis
    by blast
qed

theorem recording_names_frames_witness:
  "\<exists>v0 v u u'. EnvViewer_init example_env True ''T'' {} = Inr v0
     \<and> list_all (\<lambda>c. well_formed_env (fst c)) [(example_env, []), (example_env, [KEYDOWN K_o])]
     \<and> frames v0 [(example_env, []), (example_env, [KEYDOWN K_o])] = Inr v
     \<and> frame v = 2
     \<and> {p \<in> files v. below TMP_FOLDER p}
         = {''out/tmp/obstacle_T_0001.bmp'', ''out/tmp/obstacle_T_0002.bmp''}
     \<and> (2::nat) \<in> {1..length [(example_env, []), (example_env, [KEYDOWN K_o])]}
     \<and> (2::nat) \<le> 9999 \<and> length (format_04d (int 2)) = 4
     \<and> record_video u \<and> display u = Inr u' \<and> frame u' = frame u + 1"
proof -
  let ?cycles = "[(example_env, []), (example_env, [KEYDOWN K_o])]"
  have wf: "list_all (\<lambda>c. well_formed_env (fst c)) ?cycles"
    by (simp add: well_formed_env_def example_env_def)
  from recording_names_frames [of example_env "''T''" "{}" ?cycles] wf
  obtain v0 v where init: "EnvViewer_init example_env True ''T'' {} = Inr v0"
    and run: "frames v0 ?cycles = Inr v"
    and all: "\<forall>v. frames v0 ?cycles = Inr v \<longrightarrow>
          frame v = int (length ?cycles)
          \<and> {p \<in> files v. below TMP_FOLDER p}
              = (\<lambda>k. frame_file (''obstacle_'' @ ''T'') (int k)) ` {1..length ?cycles}
          \<and> card {p \<in> files v. below TMP_FOLDER p} = length ?cycles
          \<and> frame_file (''obstacle_'' @ ''T'') 0 \<notin> files v"
    and digits: "\<forall>k\<in>{1..length ?cycles}. k \<le> 9999 \<longrightarrow>
          length (format_04d (int k)) = 4 \<and> digits_value (format_04d (int k)) = k"
    and step: "\<forall>u u'. record_video u \<longrightarrow> display u = Inr u' \<longrightarrow>
          frame u' = frame u + 1
          \<and> files u' = insert (frame_file (video_name u) (frame u')) (files u)"
    by blast
  from all run have "frame v = int (length ?cycles)"
    and "{p \<in> files v. below TMP_FOLDER p}
           = (\<lambda>k. frame_file (''obstacle_'' @ ''T'') (int k)) ` {1..length ?cycles}"
    by blast+
  moreover have len: "length ?cycles = 2"
    by simp
  ultimately have "frame v = int 2"
    and "{p \<in> files v. below TMP_FOLDER p}
           = (\<lambda>k. frame_file (''obstacle_'' @ ''T'') (int k)) ` {1..2}"
    by (simp_all only:)
  then have counted: "frame v = 2"
    "{p \<in> files v. below TMP_FOLDER p}
           = {''out/tmp/obstacle_T_0001.bmp'', ''out/tmp/obstacle_T_0002.bmp''}"
    by (simp_all only: example_frame_files of_nat_numeral)
  have two: "(2::nat) \<in> {1..length ?cycles}" "(2::nat) \<le> 9999"
    by simp_all
  with digits have four: "length (format_04d (int 2)) = 4"
    by blast
  let ?u = "v0\<lparr>env := example_env, sim_surface := foldl handle_event (sim_surface v0) []\<rparr>"
  have "record_video v0"
    using EnvViewer_init_recording [of example_env "''T''" "{}"] init by auto
  then have rec: "record_video ?u"
    by simp
  from run obtain u' where shown: "display ?u = Inr u'"
    by (auto split: sum.splits)
  with step rec have "frame u' = frame ?u + 1"
    by blast
  with init wf run counted two four rec shown show ?thesis
    by blast
qed

text \<open>
  C9. With recording and a simulation frequency other than zero, \<open>close\<close> returns
  normally whatever the two external programs do and return: it has run the video
  command and then the animated-image command, in this order, and afterwards neither the
  temporary directory nor anything below it exists.
\<close>

theorem close_encodes_then_clears:
  assumes "record_video v" and "SIMULATION_FREQUENCY (env v) \<noteq> 0"
  shows "\<exists>v'. close system v = Inr v'
           \<and> commands v' = commands v @
               [ffmpeg_command v,
                convert_command v
                  (np_round (100 / real_of_int (VIDEO_SPEED * SIMULATION_FREQUENCY (env v))))]
           \<and> files v' = clear_video_dir
               (fst (system (convert_command v
                  (np_round (100 / real_of_int (VIDEO_SPEED * SIMULATION_FREQUENCY (env v)))))
                  (fst (system (ffmpeg_command v) (files v)))))
           \<and> \<not> path_exists (files v') TMP_FOLDER"
  using assms not_path_exists_clear_video_dir
  by (simp add: close_def os_system_def Let_def VIDEO_SPEED_def)

theorem close_encodes_then_clears_witness:
  "record_video \<lparr>env = example_env, record_video = True, screen = [],
       sim_surface = SimulationSurface_init 400 400, frame = 1, video_name = ''obstacle_T'',
       files = {''out'', ''out/tmp'', ''out/tmp/obstacle_T_0001.bmp''}, commands = []\<rparr>
   \<and> SIMULATION_FREQUENCY example_env \<noteq> 0
   \<and> (\<exists>v'. close (\<lambda>cmd fs. (fs, 1))
          \<lparr>env = example_env, record_video = True, screen = [],
           sim_surface = SimulationSurface_init 400 400, frame = 1, video_name = ''obstacle_T'',
           files = {''out'', ''out/tmp'', ''out/tmp/obstacle_T_0001.bmp''}, commands = []\<rparr> = Inr v'
        \<and> commands v' =
            [''ffmpeg -r 30 -i out/tmp/obstacle_T_%04d.bmp -vcodec libx264 -crf 25 out/obstacle_T.avi'',
             ''convert -delay 3 -loop 0 out/tmp/obstacle_T*.bmp out/obstacle_T.gif'']
        \<and> \<not> path_exists (files v') TMP_FOLDER)"
proof -
  let ?v = "\<lparr>env = example_env, record_video = True, screen = [],
       sim_surface = SimulationSurface_init 400 400, frame = 1, video_name = ''obstacle_T'',
       files = {''out'', ''out/tmp'', ''out/tmp/obstacle_T_0001.bmp''}, commands = []\<rparr>"
  have rec: "record_video ?v"
    by simp
  have freq: "SIMULATION_FREQUENCY (env ?v) \<noteq> 0"
    by (simp add: example_env_def)
  have delay: "np_round (100 / real_of_int (VIDEO_SPEED * SIMULATION_FREQUENCY (env ?v))) = 3"
    by (simp add: np_round_def example_env_def VIDEO_SPEED_def)
  have cmds: "ffmpeg_command ?v = ''ffmpeg -r 30 -i out/tmp/obstacle_T_%04d.bmp -vcodec libx264 -crf 25 out/obstacle_T.avi''"
    "convert_command ?v 3 = ''convert -delay 3 -loop 0 out/tmp/obstacle_T*.bmp out/obstacle_T.gif''"
    by (simp_all add: ffmpeg_command_def convert_command_def example_env_def VIDEO_SPEED_def
        str_int_def str_nat.simps digit_char_def TMP_FOLDER_def OUT_FOLDER_def)
  from close_encodes_then_clears [OF rec freq, of "\<lambda>cmd fs. (fs, 1)"]
  obtain v' where "close (\<lambda>cmd fs. (fs, 1)) ?v = Inr v'"
    and "commands v' = commands ?v @ [ffmpeg_command ?v,
           convert_command ?v
             (np_round (100 / real_of_int (VIDEO_SPEED * SIMULATION_FREQUENCY (env ?v))))]"
    and "\<not> path_exists (files v') TMP_FOLDER"
    by blast
  then have "close (\<lambda>cmd fs. (fs, 1)) ?v = Inr v'
        \<and> commands v' =
            [''ffmpeg -r 30 -i out/tmp/obstacle_T_%04d.bmp -vcodec libx264 -crf 25 out/obstacle_T.avi'',
             ''convert -delay 3 -loop 0 out/tmp/obstacle_T*.bmp out/obstacle_T.gif'']
        \<and> \<not> path_exists (files v') TMP_FOLDER"
    by (simp only: delay cmds) simp
  then have "\<exists>v'. close (\<lambda>cmd fs. (fs, 1)) ?v = Inr v'
        \<and> commands v' =
            [''ffmpeg -r 30 -i out/tmp/obstacle_T_%04d.bmp -vcodec libx264 -crf 25 out/obstacle_T.avi'',
             ''convert -delay 3 -loop 0 out/tmp/obstacle_T*.bmp out/obstacle_T.gif'']
        \<and> \<not> path_exists (files v') TMP_FOLDER"
    by (rule exI)
  with rec freq show ?thesis
    by simp
qed

end
